theory Spec2Isabelle
  imports Complex_Main
begin

section \<open>Data model\<close>

text \<open>
  The correspondence engine of the motion tracker, \<^verbatim>\<open>MotionTracker::alignMeshes\<close>, and the
  frame pipeline that calls it, \<^verbatim>\<open>MotionTracker::trackMotion\<close>, embedded function by
  function. The vectors of the source are lists, the member \<^verbatim>\<open>currMeshes\<close> is threaded as
  explicit state, and an index that leaves a vector is the error value \<open>OutOfRange\<close>.

  \<^verbatim>\<open>Point2f\<close> and the \<^verbatim>\<open>CV_32F\<close> matrix cells hold single-precision numbers in the source;
  here a number stands for the real it denotes, and rounding, infinities and NaN are not
  modelled; the distance function is a parameter and no theorem below states the value of
  a distance. The sizes and indices of the source and the three counters local to
  \<^verbatim>\<open>alignMeshes\<close> are machine integers; they are unbounded here, no property below depending
  on a vector of \<open>2 ^ 31\<close> entries. The absence counter of a mesh is bounded: see
  \<open>incAbsence\<close>.
\<close>

type_synonym Point2f = "real \<times> real"

text \<open>
  Modelled from the spec: the declaration of \<^verbatim>\<open>MeshObject\<close> (\<^verbatim>\<open>MeshObject.h\<close>) is not among
  the sources. The data model gives a tracked mesh its ordered points and the counter
  \<open>lengthOfAbsence\<close>, a non-negative integer; the source constructs a mesh from a vector
  of points and increments \<^verbatim>\<open>lengthOfAbsence\<close> with \<^verbatim>\<open>++\<close>. The counter is taken to be an
  \<^verbatim>\<open>int\<close> of 32 bits, as the counters that \<^verbatim>\<open>alignMeshes\<close> declares are; its values lie
  between \<open>INT_MIN\<close> and \<open>INT_MAX\<close>.
\<close>

record MeshObject =
  points :: "Point2f list"
  lengthOfAbsence :: int

text \<open>The members of \<^verbatim>\<open>MotionTracker\<close> that the source reads and writes.\<close>

record MotionTracker =
  debug :: bool
  currMeshes :: "MeshObject list"

datatype error = OutOfRange

text \<open>The lines written to \<^verbatim>\<open>cout\<close>, one constructor for each statement that prints.\<close>

datatype report =
    ReportVertices nat
  | ReportSplit nat
  | ReportAligning nat nat
  | ReportMatrix nat nat
  | ReportUpdated int
  | ReportAbsent int
  | ReportNew int

text \<open>
  The functions \<^verbatim>\<open>alignMeshes\<close> calls whose bodies are not among the sources are parameters
  of the model: \<^verbatim>\<open>MeshObject::centroid\<close>, \<^verbatim>\<open>MeshObject::update\<close>, \<^verbatim>\<open>_dist\<close> (with the cast of
  its result to \<^verbatim>\<open>float\<close>) and \<^verbatim>\<open>Hungarian(m, false).optimiseMinima()\<close>. An update gives
  the new value of the registry entry it is called on and leaves its argument as it is.
\<close>

record externals =
  centroid :: "MeshObject \<Rightarrow> Point2f"
  update :: "MeshObject \<Rightarrow> MeshObject \<Rightarrow> MeshObject"
  dist_pt :: "Point2f \<Rightarrow> Point2f \<Rightarrow> real"
  optimiseMinima :: "real list list \<Rightarrow> (int \<times> int) list"

text \<open>\<^verbatim>\<open>numeric_limits<float>::max()\<close>, the largest finite single-precision number.\<close>

definition FLT_MAX :: real where
  "FLT_MAX = (2 ^ 24 - 1) * 2 ^ 104"

section \<open>The cost matrix\<close>

text \<open>
  The inner loop of lines 110-115: \<open>c0\<close> is the centroid of the old mesh of row \<open>j\<close>, the
  column counter \<open>i\<close> runs over the centroids of the new meshes.
\<close>

fun fillCols :: "(Point2f \<Rightarrow> Point2f \<Rightarrow> real) \<Rightarrow> Point2f \<Rightarrow> Point2f list \<Rightarrow> nat \<Rightarrow> nat
    \<Rightarrow> real list list \<Rightarrow> real list list" where
  "fillCols d c0 [] j i m = m"
| "fillCols d c0 (c1 # cs) j i m =
     fillCols d c0 cs j (Suc i) (m[j := (m ! j)[i := d c0 c1]])"

text \<open>The outer loop of lines 107-117, the row counter \<open>j\<close> running over the old meshes.\<close>

fun fillRows :: "(Point2f \<Rightarrow> Point2f \<Rightarrow> real) \<Rightarrow> Point2f list \<Rightarrow> Point2f list \<Rightarrow> nat
    \<Rightarrow> real list list \<Rightarrow> real list list" where
  "fillRows d [] cs j m = m"
| "fillRows d (c0 # cs0) cs j m = fillRows d cs0 cs (Suc j) (fillCols d c0 cs j 0 m)"

text \<open>Lines 87-117: the matrix handed to the solver.\<close>

definition costMatrix :: "externals \<Rightarrow> MeshObject list \<Rightarrow> MeshObject list \<Rightarrow> real list list" where
  "costMatrix X regs newMeshes =
     (let N0 = length regs;
          N1 = length newMeshes;
          N = max N0 N1;
          centroids0 = map (centroid X) regs;
          centroids = map (centroid X) newMeshes;
          m = replicate N (replicate N FLT_MAX)
      in fillRows (dist_pt X) centroids0 centroids 0 m)"

section \<open>Classification of the couples\<close>

text \<open>The locals of lines 130-133 together with the registry the loop mutates.\<close>

record coupling =
  nFreshNew :: int
  nAbsentOld :: int
  nUpdated :: int
  pendingForAdd :: "int list"
  meshes :: "MeshObject list"

text \<open>The least and the greatest value of a 32-bit \<^verbatim>\<open>int\<close>.\<close>

definition INT_MIN :: int where
  "INT_MIN = - 2147483648"

definition INT_MAX :: int where
  "INT_MAX = 2147483647"

text \<open>
  \<^verbatim>\<open>lengthOfAbsence++\<close> on one mesh (line 152). Below the greatest value the counter grows
  by one; at the greatest value the increment overflows, and the counter is taken to wrap
  to the least value, as two's-complement hardware does.
\<close>

definition incAbsence :: "MeshObject \<Rightarrow> MeshObject" where
  "incAbsence m =
     m\<lparr>lengthOfAbsence :=
         (if lengthOfAbsence m < INT_MAX then lengthOfAbsence m + 1 else INT_MIN)\<rparr>"

text \<open>
  The body of the loop of lines 134-161 for one couple \<open>(i0, i1)\<close>. The source indexes
  \<^verbatim>\<open>currMeshes[i0]\<close> and \<^verbatim>\<open>newMeshes[i1]\<close> unchecked; the comparisons before them bound the
  indices from above only, so a negative index is the error.
\<close>

fun coupleStep :: "(MeshObject \<Rightarrow> MeshObject \<Rightarrow> MeshObject) \<Rightarrow> nat \<Rightarrow> nat \<Rightarrow> MeshObject list
    \<Rightarrow> coupling \<Rightarrow> int \<times> int \<Rightarrow> error + coupling" where
  "coupleStep upd N0 N1 newMeshes s (i0, i1) =
     (if i0 \<ge> int N0 \<and> i1 \<ge> int N1 then Inr s
      else if i0 \<ge> int N0 then
        Inr (s\<lparr>nFreshNew := nFreshNew s + 1, pendingForAdd := pendingForAdd s @ [i1]\<rparr>)
      else if i1 \<ge> int N1 then
        (if 0 \<le> i0 \<and> nat i0 < length (meshes s) then
           Inr (s\<lparr>nAbsentOld := nAbsentOld s + 1,
                  meshes := (meshes s)[nat i0 := incAbsence (meshes s ! nat i0)]\<rparr>)
         else Inl OutOfRange)
      else
        (if 0 \<le> i0 \<and> nat i0 < length (meshes s) \<and> 0 \<le> i1 \<and> nat i1 < length newMeshes then
           Inr (s\<lparr>nUpdated := nUpdated s + 1,
                  meshes := (meshes s)[nat i0 := upd (meshes s ! nat i0) (newMeshes ! nat i1)]\<rparr>)
         else Inl OutOfRange))"

fun coupleLoop :: "(MeshObject \<Rightarrow> MeshObject \<Rightarrow> MeshObject) \<Rightarrow> nat \<Rightarrow> nat \<Rightarrow> MeshObject list
    \<Rightarrow> coupling \<Rightarrow> (int \<times> int) list \<Rightarrow> error + coupling" where
  "coupleLoop upd N0 N1 newMeshes s [] = Inr s"
| "coupleLoop upd N0 N1 newMeshes s (couple # match) =
     (case coupleStep upd N0 N1 newMeshes s couple of
        Inl e \<Rightarrow> Inl e
      | Inr s' \<Rightarrow> coupleLoop upd N0 N1 newMeshes s' match)"

text \<open>The loop of lines 171-176: the queue is emptied from its front, each mesh pushed back.\<close>

fun addPending :: "MeshObject list \<Rightarrow> int list \<Rightarrow> MeshObject list \<Rightarrow> error + MeshObject list" where
  "addPending newMeshes [] regs = Inr regs"
| "addPending newMeshes (n # q) regs =
     (if 0 \<le> n \<and> nat n < length newMeshes
      then addPending newMeshes q (regs @ [newMeshes ! nat n])
      else Inl OutOfRange)"

section \<open>alignMeshes\<close>

text \<open>
  Lines 72-181. The result is the output written and either the error or the tracker with
  its registry updated. The argument \<open>maxDist\<close> is received as in the source.
\<close>

definition alignMeshes :: "externals \<Rightarrow> MotionTracker \<Rightarrow> MeshObject list \<Rightarrow> real
    \<Rightarrow> report list \<times> (error + MotionTracker)" where
  "alignMeshes X mt newMeshes maxDist =
     (let out0 = (if debug mt
                  then [ReportAligning (length (currMeshes mt)) (length newMeshes)] else [])
      in
      if length (currMeshes mt) = 0
      then (out0, Inr (mt\<lparr>currMeshes := currMeshes mt @ newMeshes\<rparr>))
      else
        let N0 = length (currMeshes mt);
            N1 = length newMeshes;
            N = max N0 N1;
            m = costMatrix X (currMeshes mt) newMeshes;
            out1 = out0 @ (if debug mt then [ReportMatrix N N] else []);
            match = optimiseMinima X m
        in
        case coupleLoop (update X) N0 N1 newMeshes
               \<lparr>nFreshNew = 0, nAbsentOld = 0, nUpdated = 0, pendingForAdd = [],
                meshes = currMeshes mt\<rparr> match of
          Inl e \<Rightarrow> (out1, Inl e)
        | Inr s \<Rightarrow>
            let out2 = out1 @ (if debug mt
                               then [ReportUpdated (nUpdated s), ReportAbsent (nAbsentOld s),
                                     ReportNew (nFreshNew s)]
                               else [])
            in
            (case addPending newMeshes (pendingForAdd s) (meshes s) of
               Inl e \<Rightarrow> (out2, Inl e)
             | Inr regs \<Rightarrow> (out2, Inr (mt\<lparr>currMeshes := regs\<rparr>))))"

text \<open>The registry a call leaves, or the error.\<close>

definition registryAfter :: "report list \<times> (error + MotionTracker) \<Rightarrow> error + MeshObject list" where
  "registryAfter r = (case snd r of Inl e \<Rightarrow> Inl e | Inr mt \<Rightarrow> Inr (currMeshes mt))"

section \<open>trackMotion\<close>

text \<open>
  The image processing of lines 20-49 and the construction and splitting of the mesh
  (lines 52 and 58) are OpenCV and \<^verbatim>\<open>MeshObject\<close> code outside the sources; they are
  parameters. Drawing on the canvas and showing the window write no state of the tracker
  and are left out.
\<close>

record 'im frontend =
  featurePoints :: "'im \<Rightarrow> Point2f list"
  frameRows :: "'im \<Rightarrow> int"
  meshSplit :: "Point2f list \<Rightarrow> real \<Rightarrow> MeshObject list"

definition trackMotion :: "externals \<Rightarrow> 'im frontend \<Rightarrow> MotionTracker \<Rightarrow> 'im
    \<Rightarrow> report list \<times> (error + MotionTracker)" where
  "trackMotion X F mt im =
     (let pts = featurePoints F im;
          outA = (if debug mt then [ReportVertices (length pts)] else []);
          maxEdgeLength = real_of_int (frameRows F im);
          maxDisplacement = real_of_int (frameRows F im) * 0.833;
          ms = meshSplit F pts maxEdgeLength;
          outB = outA @ (if debug mt then [ReportSplit (length ms)] else []);
          r = alignMeshes X mt ms maxDisplacement
      in (outB @ fst r, snd r))"

text \<open>A sequence of frames, each a list of new meshes with its displacement bound.\<close>

fun alignFrames :: "externals \<Rightarrow> MotionTracker \<Rightarrow> (MeshObject list \<times> real) list
    \<Rightarrow> error + MotionTracker" where
  "alignFrames X mt [] = Inr mt"
| "alignFrames X mt (f # fs) =
     (case snd (alignMeshes X mt (fst f) (snd f)) of
        Inl e \<Rightarrow> Inl e
      | Inr mt' \<Rightarrow> alignFrames X mt' fs)"

section \<open>Collaborators as the specification describes them\<close>

text \<open>
  Modelled from the spec: the body of \<^verbatim>\<open>_dist\<close> is not among the sources. The specification
  calls the cell value the Euclidean distance between the two centroids. This is the
  distance in exact arithmetic, without the rounding of the source; only the example
  collaborators use it.
\<close>

definition dist_euclid :: "Point2f \<Rightarrow> Point2f \<Rightarrow> real" where
  "dist_euclid a b = sqrt ((fst a - fst b)\<^sup>2 + (snd a - snd b)\<^sup>2)"

text \<open>
  Modelled from the spec: \<^verbatim>\<open>MeshObject::centroid\<close> is not among the sources. The
  specification describes the centroid as the mean of the points of the mesh. It is used
  on meshes that have a point.
\<close>

definition centroid_mean :: "MeshObject \<Rightarrow> Point2f" where
  "centroid_mean m =
     (sum_list (map fst (points m)) / real (length (points m)),
      sum_list (map snd (points m)) / real (length (points m)))"

text \<open>
  Modelled from the spec: \<^verbatim>\<open>MeshObject::update\<close> is not among the sources. The specification
  says that it replaces the geometry and resets the absence counter to 0.
\<close>

definition update_replace :: "MeshObject \<Rightarrow> MeshObject \<Rightarrow> MeshObject" where
  "update_replace m n = m\<lparr>points := points n, lengthOfAbsence := 0\<rparr>"

text \<open>
  Modelled from the spec: the assignment solver (\<^verbatim>\<open>Hungarian\<close>) is not among the sources. Its
  contract is a perfect matching over the padded square matrix: every row and every column
  of \<open>0, \<dots>, N - 1\<close> occurs in exactly one couple.
\<close>

definition perfectMatching :: "nat \<Rightarrow> (int \<times> int) list \<Rightarrow> bool" where
  "perfectMatching N match \<longleftrightarrow>
     distinct (map fst match) \<and> set (map fst match) = {0..<int N} \<and>
     distinct (map snd match) \<and> set (map snd match) = {0..<int N}"

text \<open>The total cost a matching assigns, and all the orders of a list.\<close>

definition matchCost :: "real list list \<Rightarrow> (int \<times> int) list \<Rightarrow> real" where
  "matchCost m match = sum_list (map (\<lambda>c. m ! nat (fst c) ! nat (snd c)) match)"

fun interleave :: "'a \<Rightarrow> 'a list \<Rightarrow> 'a list list" where
  "interleave x [] = [[x]]"
| "interleave x (y # ys) = (x # y # ys) # map ((#) y) (interleave x ys)"

fun perms :: "'a list \<Rightarrow> 'a list list" where
  "perms [] = [[]]"
| "perms (x # xs) = concat (map (interleave x) (perms xs))"

text \<open>
  Modelled from the spec: the solver returns a perfect matching that minimises the total
  assigned cost, so no assignment of the columns to the rows \<open>0, \<dots>, N - 1\<close> costs less.
\<close>

definition minCostMatching :: "real list list \<Rightarrow> (int \<times> int) list \<Rightarrow> bool" where
  "minCostMatching m match \<longleftrightarrow>
     perfectMatching (length m) match \<and>
     (\<forall>p\<in>set (perms [0..<length m]).
        matchCost m match \<le> matchCost m (zip (map int [0..<length m]) (map int p)))"

section \<open>The vocabulary of the properties\<close>

text \<open>The couples the solver returns for a registry and a list of new meshes.\<close>

definition matchOf :: "externals \<Rightarrow> MeshObject list \<Rightarrow> MeshObject list \<Rightarrow> (int \<times> int) list" where
  "matchOf X regs newMeshes = optimiseMinima X (costMatrix X regs newMeshes)"

text \<open>
  What the couples do to the registry entry of index \<open>i\<close>: a couple of another row leaves it
  alone, a couple of row \<open>i\<close> increments its absence or updates it, by its column.
\<close>

definition slotStep :: "(MeshObject \<Rightarrow> MeshObject \<Rightarrow> MeshObject) \<Rightarrow> nat \<Rightarrow> MeshObject list \<Rightarrow> nat
    \<Rightarrow> MeshObject \<Rightarrow> int \<times> int \<Rightarrow> MeshObject" where
  "slotStep upd N1 newMeshes i m c =
     (if fst c = int i
      then (if snd c \<ge> int N1 then incAbsence m else upd m (newMeshes ! nat (snd c)))
      else m)"

definition classified :: "externals \<Rightarrow> MeshObject list \<Rightarrow> MeshObject list \<Rightarrow> (int \<times> int) list
    \<Rightarrow> MeshObject list" where
  "classified X regs newMeshes match =
     map (\<lambda>i. foldl (slotStep (update X) (length newMeshes) newMeshes i) (regs ! i) match)
       [0..<length regs]"

text \<open>The columns of the couples with a padding row and a real column, in the solver's order.\<close>

definition freshCols :: "nat \<Rightarrow> nat \<Rightarrow> (int \<times> int) list \<Rightarrow> int list" where
  "freshCols N0 N1 match = map snd (filter (\<lambda>c. fst c \<ge> int N0 \<and> snd c < int N1) match)"





section \<open>Example inputs\<close>

text \<open>
  Two assignments that are perfect matchings of any square matrix: row \<open>i\<close> with column
  \<open>i\<close>, and row \<open>i\<close> with column \<open>N - 1 - i\<close>. With the collaborators above they give
  concrete trackers on which the theorems below are instantiated.
\<close>

definition assignDiagonal :: "real list list \<Rightarrow> (int \<times> int) list" where
  "assignDiagonal m = map (\<lambda>i. (int i, int i)) [0..<length m]"

definition assignReverse :: "real list list \<Rightarrow> (int \<times> int) list" where
  "assignReverse m = map (\<lambda>i. (int i, int (length m - 1 - i))) [0..<length m]"


definition exampleExternals :: "(real list list \<Rightarrow> (int \<times> int) list) \<Rightarrow> externals" where
  "exampleExternals solver =
     \<lparr>centroid = centroid_mean, update = update_replace, dist_pt = dist_euclid,
      optimiseMinima = solver\<rparr>"

text \<open>
  A mesh of one point, a mesh of given points, each with a given absence counter, and a
  tracker that does not print.
\<close>

definition meshAt :: "Point2f \<Rightarrow> int \<Rightarrow> MeshObject" where
  "meshAt p k = \<lparr>points = [p], lengthOfAbsence = k\<rparr>"

definition meshOf :: "Point2f list \<Rightarrow> int \<Rightarrow> MeshObject" where
  "meshOf ps k = \<lparr>points = ps, lengthOfAbsence = k\<rparr>"

definition trackerOf :: "MeshObject list \<Rightarrow> MotionTracker" where
  "trackerOf regs = \<lparr>debug = False, currMeshes = regs\<rparr>"


section \<open>The loops of alignMeshes\<close>

text \<open>
  The classification loop keeps the length of the registry, queues exactly the fresh
  columns, and changes the entry of index \<open>i\<close> only through the couples of row \<open>i\<close>. It
  returns whenever no couple has a negative index.
\<close>

lemma coupleStep_length:
  "coupleStep upd N0 N1 new s c = Inr s' \<Longrightarrow> length (meshes s') = length (meshes s)"
  by (cases c) (auto split: if_splits)

lemma coupleLoop_length:
  "coupleLoop upd N0 N1 new s match = Inr s' \<Longrightarrow> length (meshes s') = length (meshes s)"
proof (induction match arbitrary: s)
  case Nil
  then show ?case by simp
next
  case (Cons c match)
  then show ?case
    by (auto split: sum.splits dest: coupleStep_length)
qed

lemma coupleStep_pending:
  "coupleStep upd N0 N1 new s c = Inr s' \<Longrightarrow>
     pendingForAdd s' = pendingForAdd s @ freshCols N0 N1 [c]"
  by (cases c) (auto simp: freshCols_def split: if_splits)

lemma freshCols_Cons: "freshCols N0 N1 (c # cs) = freshCols N0 N1 [c] @ freshCols N0 N1 cs"
  by (simp add: freshCols_def)

lemma coupleLoop_pending:
  "coupleLoop upd N0 N1 new s match = Inr s' \<Longrightarrow>
     pendingForAdd s' = pendingForAdd s @ freshCols N0 N1 match"
proof (induction match arbitrary: s)
  case Nil
  then show ?case by (simp add: freshCols_def)
next
  case (Cons c match)
  from Cons.prems obtain s1 where
    s1: "coupleStep upd N0 N1 new s c = Inr s1" and
    rest: "coupleLoop upd N0 N1 new s1 match = Inr s'"
    by (auto split: sum.splits)
  show ?case
    using Cons.IH [OF rest] coupleStep_pending [OF s1] freshCols_Cons [of N0 N1 c match]
    by simp
qed

lemma coupleStep_slot:
  assumes "coupleStep upd N0 N1 new s c = Inr s'" "length (meshes s) = N0" "i < N0"
  shows "meshes s' ! i = slotStep upd N1 new i (meshes s ! i) c"
  using assms by (cases c) (auto simp: slotStep_def nth_list_update split: if_splits)

lemma coupleLoop_slot:
  assumes "coupleLoop upd N0 N1 new s match = Inr s'" "length (meshes s) = N0" "i < N0"
  shows "meshes s' ! i = foldl (slotStep upd N1 new i) (meshes s ! i) match"
  using assms
proof (induction match arbitrary: s)
  case Nil
  then show ?case by simp
next
  case (Cons c match)
  from Cons.prems(1) obtain s1 where
    s1: "coupleStep upd N0 N1 new s c = Inr s1" and
    rest: "coupleLoop upd N0 N1 new s1 match = Inr s'"
    by (auto split: sum.splits)
  have len: "length (meshes s1) = N0"
    using coupleStep_length [OF s1] Cons.prems(2) by simp
  show ?case
    using Cons.IH [OF rest len Cons.prems(3)] coupleStep_slot [OF s1 Cons.prems(2,3)]
    by simp
qed

lemma coupleStep_ok:
  assumes "0 \<le> fst c" "0 \<le> snd c" "length (meshes s) = N0" "length new = N1"
  shows "\<exists>s'. coupleStep upd N0 N1 new s c = Inr s'"
  using assms by (cases c) auto

lemma coupleLoop_ok:
  assumes "\<forall>c\<in>set match. 0 \<le> fst c \<and> 0 \<le> snd c" "length (meshes s) = N0" "length new = N1"
  shows "\<exists>s'. coupleLoop upd N0 N1 new s match = Inr s'"
  using assms
proof (induction match arbitrary: s)
  case Nil
  then show ?case by simp
next
  case (Cons c match)
  from Cons.prems obtain s1 where s1: "coupleStep upd N0 N1 new s c = Inr s1"
    using coupleStep_ok [of c s N0 new N1 upd] by auto
  have len: "length (meshes s1) = N0"
    using coupleStep_length [OF s1] Cons.prems(2) by simp
  from Cons.IH [OF _ len Cons.prems(3)] Cons.prems(1) s1 show ?case
    by auto
qed

lemma addPending_Inr:
  "addPending new q regs = Inr r \<Longrightarrow> r = regs @ map (\<lambda>n. new ! nat n) q"
proof (induction q arbitrary: regs)
  case Nil
  then show ?case by simp
next
  case (Cons n q)
  from Cons.prems have "addPending new q (regs @ [new ! nat n]) = Inr r"
    by (simp split: if_splits)
  from Cons.IH [OF this] show ?case by simp
qed

lemma addPending_ok:
  "\<forall>n\<in>set q. 0 \<le> n \<and> nat n < length new \<Longrightarrow>
     addPending new q regs = Inr (regs @ map (\<lambda>n. new ! nat n) q)"
  by (induction q arbitrary: regs) auto

lemma foldl_slot_none:
  "int i \<notin> fst ` set match \<Longrightarrow> foldl (slotStep upd N1 new i) m match = m"
  by (induction match arbitrary: m) (auto simp: slotStep_def)

lemma foldl_slot_once:
  "distinct (map fst match) \<Longrightarrow> (int i, j) \<in> set match \<Longrightarrow>
     foldl (slotStep upd N1 new i) m match = slotStep upd N1 new i m (int i, j)"
proof (induction match arbitrary: m)
  case Nil
  then show ?case by simp
next
  case (Cons c match)
  show ?case
  proof (cases "c = (int i, j)")
    case True
    with Cons.prems(1) have "int i \<notin> fst ` set match" by auto
    with True show ?thesis by (simp add: foldl_slot_none)
  next
    case False
    with Cons.prems have in_rest: "(int i, j) \<in> set match" by simp
    with Cons.prems(1) have "fst c \<noteq> int i" by force
    then have "slotStep upd N1 new i m c = m" by (simp add: slotStep_def)
    with Cons.IH [OF _ in_rest] Cons.prems(1) show ?thesis by simp
  qed
qed


section \<open>The registry a call leaves\<close>

lemma length_fillCols: "length (fillCols d c0 cs j i m) = length m"
  by (induction cs arbitrary: i m) auto

lemma length_fillRows: "length (fillRows d cs0 cs j m) = length m"
  by (induction cs0 arbitrary: j m) (auto simp: length_fillCols)

lemma length_costMatrix: "length (costMatrix X regs new) = max (length regs) (length new)"
  by (simp add: costMatrix_def Let_def length_fillRows)


lemma registryAfter_Inr:
  "snd r = Inr mt' \<Longrightarrow> registryAfter r = Inr (currMeshes mt')"
  by (simp add: registryAfter_def)

lemma length_classified: "length (classified X regs new M) = length regs"
  by (simp add: classified_def)

lemma alignMeshes_bootstrap:
  "currMeshes mt = [] \<Longrightarrow> snd (alignMeshes X mt new d) = Inr (mt\<lparr>currMeshes := new\<rparr>)"
  by (simp add: alignMeshes_def)

lemma alignMeshes_Inr:
  assumes ne: "currMeshes mt \<noteq> []"
    and res: "snd (alignMeshes X mt new d) = Inr mt'"
  shows "mt' = mt\<lparr>currMeshes :=
           classified X (currMeshes mt) new (matchOf X (currMeshes mt) new) @
           map (\<lambda>n. new ! nat n)
             (freshCols (length (currMeshes mt)) (length new) (matchOf X (currMeshes mt) new))\<rparr>"
proof -
  let ?N0 = "length (currMeshes mt)" and ?N1 = "length new"
  let ?M = "matchOf X (currMeshes mt) new"
  let ?s0 = "\<lparr>nFreshNew = 0, nAbsentOld = 0, nUpdated = 0, pendingForAdd = [],
              meshes = currMeshes mt\<rparr>"
  from ne res obtain s regs where
    loop: "coupleLoop (update X) ?N0 ?N1 new ?s0 ?M = Inr s" and
    add: "addPending new (pendingForAdd s) (meshes s) = Inr regs" and
    mt': "mt' = mt\<lparr>currMeshes := regs\<rparr>"
    by (auto simp: alignMeshes_def matchOf_def Let_def split: sum.splits)
  have len: "length (meshes s) = ?N0"
    using coupleLoop_length [OF loop] by simp
  have "\<forall>i<?N0. meshes s ! i = classified X (currMeshes mt) new ?M ! i"
    using coupleLoop_slot [OF loop] by (simp add: classified_def)
  with len have cls: "meshes s = classified X (currMeshes mt) new ?M"
    by (simp add: list_eq_iff_nth_eq length_classified)
  have pend: "pendingForAdd s = freshCols ?N0 ?N1 ?M"
    using coupleLoop_pending [OF loop] by simp
  from addPending_Inr [OF add] cls pend mt' show ?thesis by simp
qed

lemma freshCols_range:
  "\<forall>c\<in>set M. 0 \<le> snd c \<Longrightarrow> \<forall>n\<in>set (freshCols N0 N1 M). 0 \<le> n \<and> nat n < N1"
  by (auto simp: freshCols_def)

lemma alignMeshes_ok:
  assumes ne: "currMeshes mt \<noteq> []"
    and rng: "\<forall>c\<in>set (matchOf X (currMeshes mt) new). 0 \<le> fst c \<and> 0 \<le> snd c"
  shows "\<exists>mt'. snd (alignMeshes X mt new d) = Inr mt'"
proof -
  let ?N0 = "length (currMeshes mt)" and ?N1 = "length new"
  let ?M = "matchOf X (currMeshes mt) new"
  let ?s0 = "\<lparr>nFreshNew = 0, nAbsentOld = 0, nUpdated = 0, pendingForAdd = [],
              meshes = currMeshes mt\<rparr>"
  obtain s where loop: "coupleLoop (update X) ?N0 ?N1 new ?s0 ?M = Inr s"
    using coupleLoop_ok [OF rng, of ?s0 ?N0 new ?N1 "update X"] by auto
  have pend: "pendingForAdd s = freshCols ?N0 ?N1 ?M"
    using coupleLoop_pending [OF loop] by simp
  have "\<forall>n\<in>set (pendingForAdd s). 0 \<le> n \<and> nat n < length new"
    unfolding pend using rng by (intro freshCols_range) simp
  from addPending_ok [OF this] have
    "addPending new (pendingForAdd s) (meshes s) =
       Inr (meshes s @ map (\<lambda>n. new ! nat n) (pendingForAdd s))" .
  with loop ne show ?thesis
    by (simp add: alignMeshes_def matchOf_def Let_def)
qed

lemma pm_range:
  "perfectMatching N M \<Longrightarrow> c \<in> set M \<Longrightarrow>
     0 \<le> fst c \<and> fst c < int N \<and> 0 \<le> snd c \<and> snd c < int N"
proof -
  assume pm: "perfectMatching N M" and c: "c \<in> set M"
  from c have "fst c \<in> set (map fst M)" and "snd c \<in> set (map snd M)" by auto
  with pm show ?thesis by (simp add: perfectMatching_def)
qed

lemma pm_row:
  assumes "perfectMatching N M" "i < N"
  shows "\<exists>j. (int i, j) \<in> set M"
proof -
  from assms have "int i \<in> set (map fst M)" by (simp add: perfectMatching_def)
  then show ?thesis by auto
qed




lemma classified_once:
  assumes "distinct (map fst M)" "(int i, j) \<in> set M" "i < length regs"
  shows "classified X regs new M ! i =
           (if j \<ge> int (length new) then incAbsence (regs ! i)
            else update X (regs ! i) (new ! nat j))"
  using assms by (simp add: classified_def foldl_slot_once slotStep_def)



section \<open>The example solvers\<close>

lemma currMeshes_trackerOf: "currMeshes (trackerOf regs) = regs"
  by (simp add: trackerOf_def)


lemma matchOf_assignDiagonal:
  "matchOf (exampleExternals assignDiagonal) regs new =
     map (\<lambda>i. (int i, int i)) [0..<max (length regs) (length new)]"
  by (simp add: matchOf_def exampleExternals_def assignDiagonal_def length_costMatrix)

lemma exampleExternals_simps:
  "centroid (exampleExternals s) = centroid_mean"
  "update (exampleExternals s) = update_replace"
  "dist_pt (exampleExternals s) = dist_euclid"
  "optimiseMinima (exampleExternals s) = s"
  by (simp_all add: exampleExternals_def)

section \<open>Every entry and every new mesh is classified exactly once\<close>






section \<open>The bootstrap case\<close>

text \<open>
  C3, as the code has it. With an empty registry a call consults no collaborator (any
  other solver, centroid, distance and update give the same result) and leaves a registry
  of the size of the list of new meshes. Each entry keeps the absence counter of the mesh
  it was copied from, so the counters are 0 when those of the new meshes are.
\<close>

theorem bootstrap_keeps_input_counters:
  assumes "currMeshes mt = []"
  shows "\<exists>final. registryAfter (alignMeshes X mt new d) = Inr final \<and>
           length final = length new \<and>
           (\<forall>k<length new. lengthOfAbsence (final ! k) = lengthOfAbsence (new ! k)) \<and>
           ((\<forall>m\<in>set new. lengthOfAbsence m = 0) \<longrightarrow> (\<forall>m\<in>set final. lengthOfAbsence m = 0)) \<and>
           alignMeshes X' mt new d = alignMeshes X mt new d"
proof -
  have "registryAfter (alignMeshes X mt new d) = Inr new"
    using alignMeshes_bootstrap [OF assms] by (simp add: registryAfter_def)
  moreover have "alignMeshes X' mt new d = alignMeshes X mt new d"
    using assms by (simp add: alignMeshes_def)
  ultimately show ?thesis by simp
qed

theorem bootstrap_keeps_input_counters_witness:
  "let mt = trackerOf []; new = [meshAt (0, 0) 0, meshAt (1, 1) 0];
       X = exampleExternals assignDiagonal; X' = exampleExternals assignReverse
   in \<exists>final. registryAfter (alignMeshes X mt new 5) = Inr final \<and>
        length final = length new \<and>
        (\<forall>k<length new. lengthOfAbsence (final ! k) = lengthOfAbsence (new ! k)) \<and>
        ((\<forall>m\<in>set new. lengthOfAbsence m = 0) \<longrightarrow> (\<forall>m\<in>set final. lengthOfAbsence m = 0)) \<and>
        alignMeshes X' mt new 5 = alignMeshes X mt new 5"
  unfolding Let_def by (rule bootstrap_keeps_input_counters) (simp add: currMeshes_trackerOf)

text \<open>
  C3 as the specification states it, every entry of the registry having the counter 0,
  fails for a new mesh that carries the counter 5: the copy carries 5 as well.
\<close>

theorem bootstrap_counter_not_reset:
  "registryAfter (alignMeshes (exampleExternals assignDiagonal) (trackerOf [])
      [meshAt (0, 0) 5] 0) = Inr [meshAt (0, 0) 5] \<and>
   lengthOfAbsence (meshAt (0, 0) 5) \<noteq> 0"
  by (simp add: alignMeshes_def registryAfter_def trackerOf_def meshAt_def)

text \<open>
  C10. With an empty registry a call stores the new meshes as they are: the tracker is
  the old one with the list of new meshes as its registry, and entry \<open>k\<close> equals new mesh
  \<open>k\<close> in every field, the absence counter included.
\<close>

theorem bootstrap_appends_unmodified:
  assumes "currMeshes mt = []"
  shows "snd (alignMeshes X mt new d) = Inr (mt\<lparr>currMeshes := new\<rparr>) \<and>
         (\<exists>final. registryAfter (alignMeshes X mt new d) = Inr final \<and>
            length final = length new \<and>
            (\<forall>k<length new. final ! k = new ! k \<and> points (final ! k) = points (new ! k) \<and>
               lengthOfAbsence (final ! k) = lengthOfAbsence (new ! k)))"
  using alignMeshes_bootstrap [OF assms, of X new d] by (simp add: registryAfter_def)

theorem bootstrap_appends_unmodified_witness:
  "let mt = trackerOf []; new = [meshAt (0, 0) 4, meshAt (2, 1) 0];
       X = exampleExternals assignDiagonal
   in snd (alignMeshes X mt new 5) = Inr (mt\<lparr>currMeshes := new\<rparr>) \<and>
      (\<exists>final. registryAfter (alignMeshes X mt new 5) = Inr final \<and>
         length final = length new \<and>
         (\<forall>k<length new. final ! k = new ! k \<and> points (final ! k) = points (new ! k) \<and>
            lengthOfAbsence (final ! k) = lengthOfAbsence (new ! k)))"
  unfolding Let_def by (rule bootstrap_appends_unmodified) (simp add: currMeshes_trackerOf)

section \<open>Frames without new meshes\<close>

lemma fillRows_no_columns: "fillRows d cs0 [] j m = m"
  by (induction cs0 arbitrary: j m) auto

lemma costMatrix_no_new:
  "costMatrix X regs [] = replicate (length regs) (replicate (length regs) FLT_MAX)"
  by (simp add: costMatrix_def Let_def fillRows_no_columns)

lemma classified_all_absent:
  assumes pm: "perfectMatching (length regs) M"
  shows "classified X regs [] M = map incAbsence regs"
proof (rule nth_equalityI)
  show "length (classified X regs [] M) = length (map incAbsence regs)"
    by (simp add: length_classified)
next
  fix i assume "i < length (classified X regs [] M)"
  then have i: "i < length regs" by (simp add: length_classified)
  from pm have d: "distinct (map fst M)" by (simp add: perfectMatching_def)
  from pm_row [OF pm i] obtain j where j: "(int i, j) \<in> set M" by blast
  from pm_range [OF pm j] have "0 \<le> j" by simp
  with classified_once [OF d j i, of X "[]"] i
  show "classified X regs [] M ! i = map incAbsence regs ! i" by simp
qed

lemma freshCols_no_new:
  assumes "\<forall>c\<in>set M. 0 \<le> snd c"
  shows "freshCols N0 0 M = []"
  using assms by (auto simp: freshCols_def filter_empty_conv)

lemma alignMeshes_no_new:
  assumes ne: "currMeshes mt \<noteq> []"
    and pm: "perfectMatching (length (currMeshes mt))
      (optimiseMinima X (replicate (length (currMeshes mt))
         (replicate (length (currMeshes mt)) FLT_MAX)))"
  shows "snd (alignMeshes X mt [] d) = Inr (mt\<lparr>currMeshes := map incAbsence (currMeshes mt)\<rparr>)"
proof -
  let ?M = "matchOf X (currMeshes mt) []"
  from pm have pm': "perfectMatching (length (currMeshes mt)) ?M"
    by (simp add: matchOf_def costMatrix_no_new)
  have rng: "\<forall>c\<in>set ?M. 0 \<le> fst c \<and> 0 \<le> snd c"
    using pm_range [OF pm'] by blast
  then obtain mt' where res: "snd (alignMeshes X mt [] d) = Inr mt'"
    using alignMeshes_ok [OF ne] by blast
  have "freshCols (length (currMeshes mt)) 0 ?M = []"
    using rng by (intro freshCols_no_new) simp
  with alignMeshes_Inr [OF ne res] classified_all_absent [OF pm', of X] res
  show ?thesis by simp
qed

lemma incAbsence_below_limit:
  "lengthOfAbsence m < INT_MAX \<Longrightarrow>
     incAbsence m = m\<lparr>lengthOfAbsence := lengthOfAbsence m + 1\<rparr>"
  by (simp add: incAbsence_def)

lemma alignFrames_no_new:
  assumes ne: "currMeshes mt \<noteq> []"
    and pm: "perfectMatching (length (currMeshes mt))
      (optimiseMinima X (replicate (length (currMeshes mt))
         (replicate (length (currMeshes mt)) FLT_MAX)))"
    and fs: "\<forall>f\<in>set fs. fst f = []"
    and lim: "\<forall>m\<in>set (currMeshes mt). lengthOfAbsence m + int (length fs) \<le> INT_MAX"
  shows "alignFrames X mt fs =
     Inr (mt\<lparr>currMeshes :=
       map (\<lambda>m. m\<lparr>lengthOfAbsence := lengthOfAbsence m + int (length fs)\<rparr>) (currMeshes mt)\<rparr>)"
  using assms
proof (induction fs arbitrary: mt)
  case Nil
  then show ?case by (simp add: map_idI)
next
  case (Cons f fs)
  let ?mt1 = "mt\<lparr>currMeshes := map incAbsence (currMeshes mt)\<rparr>"
  from Cons.prems(3) have f: "fst f = []" by simp
  have step: "snd (alignMeshes X mt (fst f) (snd f)) = Inr ?mt1"
    using alignMeshes_no_new [OF Cons.prems(1,2)] f by simp
  have below: "lengthOfAbsence m < INT_MAX" if "m \<in> set (currMeshes mt)" for m
    using Cons.prems(4) that by force
  have inc: "map incAbsence (currMeshes mt) =
      map (\<lambda>m. m\<lparr>lengthOfAbsence := lengthOfAbsence m + 1\<rparr>) (currMeshes mt)"
    by (rule map_cong) (simp_all add: below incAbsence_below_limit)
  have ne1: "currMeshes ?mt1 \<noteq> []" using Cons.prems(1) by simp
  have pm1: "perfectMatching (length (currMeshes ?mt1))
      (optimiseMinima X (replicate (length (currMeshes ?mt1))
         (replicate (length (currMeshes ?mt1)) FLT_MAX)))"
    using Cons.prems(2) by simp
  have fs: "\<forall>f\<in>set fs. fst f = []" using Cons.prems(3) by simp
  have lim1: "\<forall>m\<in>set (currMeshes ?mt1). lengthOfAbsence m + int (length fs) \<le> INT_MAX"
    using Cons.prems(4) by (auto simp: inc)
  show ?case
    using step Cons.IH [OF ne1 pm1 fs lim1]
    by (simp add: inc comp_def add.assoc)
qed

text \<open>
  C4, as the code has it. On a non-empty registry, a sequence of frames none of which has
  a new mesh returns, keeps the size of the registry, and adds the number of frames to the
  absence counter of every entry, nothing else of the entry changing, provided no counter
  would pass the greatest value of its type on the way. The solver is asked for a perfect
  matching of the one matrix it sees in these frames, all of whose cells are the sentinel.
\<close>

theorem absence_accumulates:
  assumes ne: "currMeshes mt \<noteq> []"
    and pm: "perfectMatching (length (currMeshes mt))
      (optimiseMinima X (replicate (length (currMeshes mt))
         (replicate (length (currMeshes mt)) FLT_MAX)))"
    and fs: "\<forall>f\<in>set fs. fst f = []"
    and lim: "\<forall>m\<in>set (currMeshes mt). lengthOfAbsence m + int (length fs) \<le> INT_MAX"
  shows "\<exists>mt'. alignFrames X mt fs = Inr mt' \<and>
           length (currMeshes mt') = length (currMeshes mt) \<and>
           (\<forall>i<length (currMeshes mt).
              lengthOfAbsence (currMeshes mt' ! i) =
                lengthOfAbsence (currMeshes mt ! i) + int (length fs) \<and>
              currMeshes mt' ! i = (currMeshes mt ! i)
                \<lparr>lengthOfAbsence := lengthOfAbsence (currMeshes mt ! i) + int (length fs)\<rparr>)"
  using alignFrames_no_new [OF assms] by simp

theorem absence_accumulates_witness:
  "let X = exampleExternals assignDiagonal;
       mt = trackerOf [meshAt (0, 0) 0, meshAt (1, 0) 2147483644];
       fs = [([], 1), ([], 2), ([], 3)]
   in \<exists>mt'. alignFrames X mt fs = Inr mt' \<and>
        length (currMeshes mt') = length (currMeshes mt) \<and>
        (\<forall>i<length (currMeshes mt).
           lengthOfAbsence (currMeshes mt' ! i) =
             lengthOfAbsence (currMeshes mt ! i) + int (length fs) \<and>
           currMeshes mt' ! i = (currMeshes mt ! i)
             \<lparr>lengthOfAbsence := lengthOfAbsence (currMeshes mt ! i) + int (length fs)\<rparr>)"
  unfolding Let_def
proof (rule absence_accumulates)
  show "currMeshes (trackerOf [meshAt (0, 0) 0, meshAt (1, 0) 2147483644]) \<noteq> []"
    by (simp add: currMeshes_trackerOf)
  show "perfectMatching
     (length (currMeshes (trackerOf [meshAt (0, 0) 0, meshAt (1, 0) 2147483644])))
     (optimiseMinima (exampleExternals assignDiagonal)
        (replicate (length (currMeshes (trackerOf [meshAt (0, 0) 0, meshAt (1, 0) 2147483644])))
           (replicate
              (length (currMeshes (trackerOf [meshAt (0, 0) 0, meshAt (1, 0) 2147483644])))
              FLT_MAX)))"
    by (auto simp: currMeshes_trackerOf exampleExternals_def assignDiagonal_def
          perfectMatching_def)
  show "\<forall>f\<in>set [([], 1), ([], 2), ([], 3::real)]. fst f = ([]::MeshObject list)" by simp
  show "\<forall>m\<in>set (currMeshes (trackerOf [meshAt (0, 0) 0, meshAt (1, 0) 2147483644])).
      lengthOfAbsence m + int (length [([]::MeshObject list, 1::real), ([], 2), ([], 3)])
        \<le> INT_MAX"
    by (simp add: currMeshes_trackerOf meshAt_def INT_MAX_def)
qed

text \<open>
  C4 as the specification states it, for every registry, fails for an entry whose counter
  is the greatest value of its type: one frame without new meshes does not leave it one
  greater, the increment of line 152 overflows and the counter is the least value.
\<close>

theorem absence_overflows_at_limit:
  "perfectMatching 1 (optimiseMinima (exampleExternals assignDiagonal) [[FLT_MAX]]) \<and>
   alignFrames (exampleExternals assignDiagonal) (trackerOf [meshAt (0, 0) 2147483647])
      [([], 0)] = Inr (trackerOf [meshAt (0, 0) (- 2147483648)]) \<and>
   lengthOfAbsence (meshAt (0, 0) (- 2147483648)) \<noteq>
     lengthOfAbsence (meshAt (0, 0) 2147483647) + int (length [([]::MeshObject list, 0::real)])"
  by (auto simp: perfectMatching_def alignMeshes_def trackerOf_def costMatrix_def
        exampleExternals_def assignDiagonal_def meshAt_def incAbsence_def INT_MAX_def
        INT_MIN_def)

section \<open>The pending additions\<close>

text \<open>
  C5, as the code has it. With a non-empty registry and couples without a negative index
  (as in any perfect matching), the classification loop runs over all the couples on a
  registry that keeps its size, and queues exactly the columns of the couples whose row is
  padding and whose column is real. Only then is each queued mesh pushed back, behind the
  classified entries, as it is: with the absence counter the new mesh carries.
\<close>

theorem pending_meshes_appended_after_classification:
  assumes ne: "currMeshes mt \<noteq> []"
    and rng: "\<forall>c\<in>set (matchOf X (currMeshes mt) new). 0 \<le> fst c \<and> 0 \<le> snd c"
  shows "\<exists>s. coupleLoop (update X) (length (currMeshes mt)) (length new) new
                \<lparr>nFreshNew = 0, nAbsentOld = 0, nUpdated = 0, pendingForAdd = [],
                 meshes = currMeshes mt\<rparr> (matchOf X (currMeshes mt) new) = Inr s \<and>
              length (meshes s) = length (currMeshes mt) \<and>
              pendingForAdd s =
                freshCols (length (currMeshes mt)) (length new) (matchOf X (currMeshes mt) new) \<and>
              registryAfter (alignMeshes X mt new d) =
                Inr (meshes s @ map (\<lambda>n. new ! nat n) (pendingForAdd s)) \<and>
              (\<forall>k<length (pendingForAdd s).
                 0 \<le> pendingForAdd s ! k \<and> pendingForAdd s ! k < int (length new) \<and>
                 lengthOfAbsence ((meshes s @ map (\<lambda>n. new ! nat n) (pendingForAdd s)) !
                                   (length (currMeshes mt) + k)) =
                   lengthOfAbsence (new ! nat (pendingForAdd s ! k)))"
proof -
  let ?N0 = "length (currMeshes mt)" and ?N1 = "length new"
  let ?M = "matchOf X (currMeshes mt) new"
  let ?s0 = "\<lparr>nFreshNew = 0, nAbsentOld = 0, nUpdated = 0, pendingForAdd = [],
              meshes = currMeshes mt\<rparr>"
  obtain s where loop: "coupleLoop (update X) ?N0 ?N1 new ?s0 ?M = Inr s"
    using coupleLoop_ok [OF rng, of ?s0 ?N0 new ?N1 "update X"] by auto
  have len: "length (meshes s) = ?N0"
    using coupleLoop_length [OF loop] by simp
  have pend: "pendingForAdd s = freshCols ?N0 ?N1 ?M"
    using coupleLoop_pending [OF loop] by simp
  have prng: "\<forall>n\<in>set (pendingForAdd s). 0 \<le> n \<and> nat n < length new"
    unfolding pend using rng by (intro freshCols_range) simp
  from addPending_ok [OF prng] have
    "addPending new (pendingForAdd s) (meshes s) =
       Inr (meshes s @ map (\<lambda>n. new ! nat n) (pendingForAdd s))" .
  with loop ne have reg: "registryAfter (alignMeshes X mt new d) =
      Inr (meshes s @ map (\<lambda>n. new ! nat n) (pendingForAdd s))"
    by (simp add: alignMeshes_def matchOf_def Let_def registryAfter_def)
  have each: "\<forall>k<length (pendingForAdd s).
      0 \<le> pendingForAdd s ! k \<and> pendingForAdd s ! k < int (length new) \<and>
      lengthOfAbsence ((meshes s @ map (\<lambda>n. new ! nat n) (pendingForAdd s)) ! (?N0 + k)) =
        lengthOfAbsence (new ! nat (pendingForAdd s ! k))"
  proof (intro allI impI)
    fix k assume k: "k < length (pendingForAdd s)"
    then have "pendingForAdd s ! k \<in> set (pendingForAdd s)" by simp
    with prng have "0 \<le> pendingForAdd s ! k \<and> nat (pendingForAdd s ! k) < length new" by blast
    then show "0 \<le> pendingForAdd s ! k \<and> pendingForAdd s ! k < int (length new) \<and>
      lengthOfAbsence ((meshes s @ map (\<lambda>n. new ! nat n) (pendingForAdd s)) ! (?N0 + k)) =
        lengthOfAbsence (new ! nat (pendingForAdd s ! k))"
      using k len by (auto simp: nth_append)
  qed
  from loop len pend reg each show ?thesis by blast
qed

theorem pending_meshes_appended_after_classification_witness:
  "let X = exampleExternals assignDiagonal; mt = trackerOf [meshAt (0, 0) 0];
       new = [meshAt (1, 0) 0, meshAt (5, 5) 0]
   in \<exists>s. coupleLoop (update X) (length (currMeshes mt)) (length new) new
                \<lparr>nFreshNew = 0, nAbsentOld = 0, nUpdated = 0, pendingForAdd = [],
                 meshes = currMeshes mt\<rparr> (matchOf X (currMeshes mt) new) = Inr s \<and>
              length (meshes s) = length (currMeshes mt) \<and>
              pendingForAdd s =
                freshCols (length (currMeshes mt)) (length new) (matchOf X (currMeshes mt) new) \<and>
              registryAfter (alignMeshes X mt new 5) =
                Inr (meshes s @ map (\<lambda>n. new ! nat n) (pendingForAdd s)) \<and>
              (\<forall>k<length (pendingForAdd s).
                 0 \<le> pendingForAdd s ! k \<and> pendingForAdd s ! k < int (length new) \<and>
                 lengthOfAbsence ((meshes s @ map (\<lambda>n. new ! nat n) (pendingForAdd s)) !
                                   (length (currMeshes mt) + k)) =
                   lengthOfAbsence (new ! nat (pendingForAdd s ! k)))"
  unfolding Let_def
  by (rule pending_meshes_appended_after_classification)
     (simp_all add: matchOf_assignDiagonal currMeshes_trackerOf)

text \<open>
  C5 as the specification states it, the appended entry having the counter 0, fails for
  a new mesh that carries the counter 7 and is paired with a padding row.
\<close>

theorem pending_mesh_counter_not_reset:
  "matchOf (exampleExternals assignDiagonal) [meshAt (0, 0) 0]
      [meshAt (1, 0) 0, meshAt (5, 5) 7] = [(0, 0), (1, 1)] \<and>
   registryAfter (alignMeshes (exampleExternals assignDiagonal) (trackerOf [meshAt (0, 0) 0])
      [meshAt (1, 0) 0, meshAt (5, 5) 7] 0) = Inr [meshAt (1, 0) 0, meshAt (5, 5) 7] \<and>
   lengthOfAbsence (meshAt (5, 5) 7) \<noteq> 0"
  by (simp add: matchOf_def alignMeshes_def registryAfter_def trackerOf_def
        length_costMatrix assignDiagonal_def exampleExternals_def meshAt_def update_replace_def)

section \<open>The displacement bound and the debug flag\<close>

text \<open>
  C6. Two calls that differ in the displacement bound only write the same output and
  leave the same tracker, or fail alike.
\<close>

theorem maxDisplacement_never_applied:
  "alignMeshes X mt new d1 = alignMeshes X mt new d2"
  by (simp add: alignMeshes_def)

lemma alignMeshes_debug:
  "registryAfter (alignMeshes X (mt\<lparr>debug := b\<rparr>) new d) = registryAfter (alignMeshes X mt new d)"
  by (simp add: alignMeshes_def registryAfter_def Let_def split: sum.splits)

lemma trackMotion_debug:
  "registryAfter (trackMotion X F (mt\<lparr>debug := b\<rparr>) im) = registryAfter (trackMotion X F mt im)"
proof -
  have "registryAfter (trackMotion X F mt' im) =
        registryAfter (alignMeshes X mt'
          (meshSplit F (featurePoints F im) (real_of_int (frameRows F im)))
          (real_of_int (frameRows F im) * 0.833))" for mt'
    by (simp add: trackMotion_def registryAfter_def Let_def)
  then show ?thesis by (simp add: alignMeshes_debug)
qed

text \<open>
  C7. With the debug flag set and cleared, \<open>alignMeshes\<close> is given the same couples by
  the solver and leaves the same registry or the same error, and so does a whole frame
  through \<open>trackMotion\<close>.
\<close>

theorem debug_flag_only_reports:
  "registryAfter (alignMeshes X (mt\<lparr>debug := True\<rparr>) new d) =
     registryAfter (alignMeshes X (mt\<lparr>debug := False\<rparr>) new d) \<and>
   matchOf X (currMeshes (mt\<lparr>debug := True\<rparr>)) new =
     matchOf X (currMeshes (mt\<lparr>debug := False\<rparr>)) new \<and>
   registryAfter (trackMotion X F (mt\<lparr>debug := True\<rparr>) im) =
     registryAfter (trackMotion X F (mt\<lparr>debug := False\<rparr>) im)"
  by (simp add: alignMeshes_debug trackMotion_debug)

section \<open>Entries are never removed or moved\<close>








section \<open>The layout of the cost matrix\<close>

text \<open>
  The matrix handed to the solver is square of size \<open>max N0 N1\<close>. The cell of row
  \<open>i < N0\<close> and column \<open>j < N1\<close> holds what the distance function gives for the centroid of
  old mesh \<open>i\<close> and the centroid of new mesh \<open>j\<close>; every other cell holds the sentinel
  \<open>FLT_MAX\<close>. How that value compares with the sentinel is a matter of single-precision
  arithmetic and is not stated here.
\<close>

lemma length_fillCols_row: "length (fillCols d c0 cs j i m ! r) = length (m ! r)"
proof (induction cs arbitrary: i m)
  case Nil
  then show ?case by simp
next
  case (Cons c1 cs)
  let ?m' = "m[j := (m ! j)[i := d c0 c1]]"
  have "length (fillCols d c0 (c1 # cs) j i m ! r) = length (?m' ! r)"
    using Cons.IH by simp
  also have "\<dots> = length (m ! r)"
    by (cases "r < length m"; cases "r = j") (simp_all add: list_update_beyond)
  finally show ?case .
qed

lemma length_fillRows_row: "length (fillRows d cs0 cs j m ! r) = length (m ! r)"
  by (induction cs0 arbitrary: j m) (simp_all add: length_fillCols_row)

lemma fillCols_nth:
  assumes "r < length m" "c < length (m ! r)"
  shows "fillCols d c0 cs j i m ! r ! c =
           (if r = j \<and> i \<le> c \<and> c < i + length cs then d c0 (cs ! (c - i)) else m ! r ! c)"
  using assms
proof (induction cs arbitrary: i m)
  case Nil
  then show ?case by simp
next
  case (Cons c1 cs)
  let ?m' = "m[j := (m ! j)[i := d c0 c1]]"
  have r: "r < length ?m'" using Cons.prems by simp
  have c: "c < length (?m' ! r)" using Cons.prems by (cases "r = j") simp_all
  have cell: "?m' ! r ! c = (if r = j \<and> c = i then d c0 c1 else m ! r ! c)"
    using Cons.prems by (cases "r = j") (auto simp: nth_list_update)
  have "fillCols d c0 (c1 # cs) j i m ! r ! c =
          (if r = j \<and> Suc i \<le> c \<and> c < Suc i + length cs
           then d c0 (cs ! (c - Suc i)) else ?m' ! r ! c)"
    using Cons.IH [OF r c] by simp
  also have "\<dots> = (if r = j \<and> i \<le> c \<and> c < i + length (c1 # cs)
                     then d c0 ((c1 # cs) ! (c - i)) else m ! r ! c)"
    unfolding cell by (auto simp: nth_Cons' Suc_diff_le)
  finally show ?case .
qed

lemma fillRows_nth:
  assumes "r < length m" "c < length (m ! r)"
  shows "fillRows d cs0 cs j m ! r ! c =
           (if j \<le> r \<and> r < j + length cs0 \<and> c < length cs
            then d (cs0 ! (r - j)) (cs ! c) else m ! r ! c)"
  using assms
proof (induction cs0 arbitrary: j m)
  case Nil
  then show ?case by simp
next
  case (Cons c0 cs0)
  let ?m' = "fillCols d c0 cs j 0 m"
  have r: "r < length ?m'" using Cons.prems by (simp add: length_fillCols)
  have c: "c < length (?m' ! r)" using Cons.prems by (simp add: length_fillCols_row)
  have cell: "?m' ! r ! c = (if r = j \<and> c < length cs then d c0 (cs ! c) else m ! r ! c)"
    using fillCols_nth [OF Cons.prems, of d c0 cs j 0] by simp
  have "fillRows d (c0 # cs0) cs j m ! r ! c =
          (if Suc j \<le> r \<and> r < Suc j + length cs0 \<and> c < length cs
           then d (cs0 ! (r - Suc j)) (cs ! c) else ?m' ! r ! c)"
    using Cons.IH [OF r c] by simp
  also have "\<dots> = (if j \<le> r \<and> r < j + length (c0 # cs0) \<and> c < length cs
                     then d ((c0 # cs0) ! (r - j)) (cs ! c) else m ! r ! c)"
    unfolding cell by (auto simp: nth_Cons' Suc_diff_le)
  finally show ?case .
qed

lemma length_costMatrix_row:
  "r < max (length regs) (length new) \<Longrightarrow>
     length (costMatrix X regs new ! r) = max (length regs) (length new)"
  by (simp add: costMatrix_def Let_def length_fillRows_row)

lemma costMatrix_nth:
  assumes "i < max (length regs) (length new)" "j < max (length regs) (length new)"
  shows "costMatrix X regs new ! i ! j =
           (if i < length regs \<and> j < length new
            then dist_pt X (centroid X (regs ! i)) (centroid X (new ! j)) else FLT_MAX)"
  using assms by (simp add: costMatrix_def Let_def fillRows_nth)

section \<open>Zero displacement\<close>

lemma interleave_head: "x # xs \<in> set (interleave x xs)"
  by (cases xs) simp_all

lemma perms_self: "xs \<in> set (perms xs)"
proof (induction xs)
  case Nil
  then show ?case by simp
next
  case (Cons x xs)
  then show ?case using interleave_head [of x xs] by auto
qed

lemma matchCost_diagonal:
  "matchCost m (zip (map int [0..<n]) (map int [0..<n])) = sum_list (map (\<lambda>i. m ! i ! i) [0..<n])"
proof -
  have "zip (map int [0..<n]) (map int [0..<n]) = map (\<lambda>i. (int i, int i)) [0..<n]"
    by (simp add: zip_map_map zip_same_conv_map)
  then show ?thesis by (simp add: matchCost_def comp_def)
qed

lemma zero_displacement_cells:
  assumes len: "length new = length regs"
    and cen: "map (centroid X) new = map (centroid X) regs"
    and nn: "\<forall>a b. 0 \<le> dist_pt X a b"
    and zr: "\<forall>a. dist_pt X a a = 0"
    and sp: "\<forall>a b. dist_pt X a b = 0 \<longrightarrow> a = b"
    and pm: "perfectMatching (length regs) M"
    and le: "matchCost (costMatrix X regs new) M
               \<le> matchCost (costMatrix X regs new)
                    (zip (map int [0..<length regs]) (map int [0..<length regs]))"
    and c: "c \<in> set M"
  shows "centroid X (new ! nat (snd c)) = centroid X (regs ! nat (fst c))"
proof -
  let ?m = "costMatrix X regs new"
  let ?N = "length regs"
  have cell: "?m ! i ! j = dist_pt X (centroid X (regs ! i)) (centroid X (new ! j))"
    if "i < ?N" "j < ?N" for i j
    using that len costMatrix_nth [of i regs new j X] by simp
  have same: "centroid X (new ! i) = centroid X (regs ! i)" if "i < ?N" for i
  proof -
    from that len have "map (centroid X) new ! i = centroid X (new ! i)"
      and "map (centroid X) regs ! i = centroid X (regs ! i)" by simp_all
    with cen show ?thesis by simp
  qed
  have "sum_list (map (\<lambda>i. ?m ! i ! i) [0..<?N]) = 0"
  proof -
    have eq: "map (\<lambda>i. ?m ! i ! i) [0..<?N] = map (\<lambda>i. 0) [0..<?N]"
      by (rule map_cong) (simp_all add: cell same zr)
    show ?thesis unfolding eq by simp
  qed
  with le have le0: "matchCost ?m M \<le> 0" by (simp add: matchCost_diagonal)
  have rng: "nat (fst c') < ?N \<and> nat (snd c') < ?N" if "c' \<in> set M" for c'
    using pm_range [OF pm that] by auto
  have nonneg: "\<forall>x\<in>set (map (\<lambda>c. ?m ! nat (fst c) ! nat (snd c)) M). 0 \<le> x"
    using rng by (auto simp: cell nn)
  then have "0 \<le> matchCost ?m M"
    unfolding matchCost_def by (intro sum_list_nonneg) blast
  with le0 have zero: "sum_list (map (\<lambda>c. ?m ! nat (fst c) ! nat (snd c)) M) = 0"
    by (simp add: matchCost_def)
  have "\<forall>x\<in>set (map (\<lambda>c. ?m ! nat (fst c) ! nat (snd c)) M). x = 0"
    using sum_list_nonneg_eq_0_iff [of "map (\<lambda>c. ?m ! nat (fst c) ! nat (snd c)) M"]
      nonneg zero by blast
  with c have "?m ! nat (fst c) ! nat (snd c) = 0" by simp
  with rng [OF c] have "dist_pt X (centroid X (regs ! nat (fst c)))
      (centroid X (new ! nat (snd c))) = 0"
    by (simp add: cell)
  from sp [rule_format, OF this] show ?thesis by simp
qed

text \<open>
  What the contract of the solver gives for a non-empty registry and as many new meshes
  with the same centroids, index by index, when the stored distance is never negative and
  is 0 exactly between equal points. With a perfect matching of minimal cost the call
  returns a registry of the same size; every couple has a real row and a real column, so no
  absence is incremented and nothing is appended; and every entry is updated with a new
  mesh whose centroid is its own, which is the new mesh of its own index when the
  centroids of the registry are pairwise distinct. When two entries share a centroid the
  contract leaves open which of them a new mesh is paired with.
\<close>

lemma zero_displacement_updates_every_entry:
  assumes ne: "currMeshes mt \<noteq> []"
    and len: "length new = length (currMeshes mt)"
    and cen: "map (centroid X) new = map (centroid X) (currMeshes mt)"
    and nn: "\<forall>a b. 0 \<le> dist_pt X a b"
    and zr: "\<forall>a. dist_pt X a a = 0"
    and sp: "\<forall>a b. dist_pt X a b = 0 \<longrightarrow> a = b"
    and mc: "minCostMatching (costMatrix X (currMeshes mt) new) (matchOf X (currMeshes mt) new)"
  shows "\<exists>final. registryAfter (alignMeshes X mt new d) = Inr final \<and>
           length final = length (currMeshes mt) \<and>
           (\<forall>c\<in>set (matchOf X (currMeshes mt) new).
              fst c < int (length (currMeshes mt)) \<and> snd c < int (length new)) \<and>
           (\<forall>i<length (currMeshes mt). \<exists>j<length new.
              (int i, int j) \<in> set (matchOf X (currMeshes mt) new) \<and>
              centroid X (new ! j) = centroid X (currMeshes mt ! i) \<and>
              final ! i = update X (currMeshes mt ! i) (new ! j) \<and>
              (distinct (map (centroid X) (currMeshes mt)) \<longrightarrow> j = i))"
proof -
  let ?regs = "currMeshes mt"
  let ?N = "length ?regs"
  let ?M = "matchOf X ?regs new"
  let ?m = "costMatrix X ?regs new"
  let ?cl = "classified X ?regs new ?M"
  have lm: "length ?m = ?N" using len by (simp add: length_costMatrix)
  from mc lm have pm: "perfectMatching ?N ?M" by (simp add: minCostMatching_def)
  then have pm': "perfectMatching (max ?N (length new)) ?M" using len by simp
  from pm have dist: "distinct (map fst ?M)" by (simp add: perfectMatching_def)
  have "[0..<?N] \<in> set (perms [0..<?N])" by (rule perms_self)
  with mc lm have le: "matchCost ?m ?M
      \<le> matchCost ?m (zip (map int [0..<?N]) (map int [0..<?N]))"
    by (simp add: minCostMatching_def)
  note same = zero_displacement_cells [OF len cen nn zr sp pm le]
  have rng: "\<forall>c\<in>set ?M. 0 \<le> fst c \<and> 0 \<le> snd c"
    using pm_range [OF pm] by blast
  then obtain mt' where res: "snd (alignMeshes X mt new d) = Inr mt'"
    using alignMeshes_ok [OF ne] by blast
  have real: "\<forall>c\<in>set ?M. fst c < int ?N \<and> snd c < int (length new)"
    using pm_range [OF pm] len by simp
  then have "freshCols ?N (length new) ?M = []"
    by (auto simp: freshCols_def filter_empty_conv)
  with alignMeshes_Inr [OF ne res] res
  have final: "registryAfter (alignMeshes X mt new d) = Inr ?cl"
    by (simp add: registryAfter_def)
  have each: "\<exists>j<length new. (int i, int j) \<in> set ?M \<and>
      centroid X (new ! j) = centroid X (?regs ! i) \<and>
      ?cl ! i = update X (?regs ! i) (new ! j) \<and>
      (distinct (map (centroid X) ?regs) \<longrightarrow> j = i)" if i: "i < ?N" for i
  proof -
    from pm_row [OF pm i] obtain j' where j': "(int i, j') \<in> set ?M" by blast
    from pm_range [OF pm j'] len have j0: "0 \<le> j'" and jN: "j' < int (length new)" by simp_all
    let ?j = "nat j'"
    from j0 jN have lt: "?j < length new" and rt: "int ?j = j'" by simp_all
    from same [OF j'] have eq: "centroid X (new ! ?j) = centroid X (?regs ! i)" by simp
    have upd: "?cl ! i = update X (?regs ! i) (new ! ?j)"
      using classified_once [OF dist j' i, of X new] jN by simp
    have "?j = i" if d: "distinct (map (centroid X) ?regs)"
    proof -
      from lt len have ltN: "?j < ?N" by simp
      have "map (centroid X) new ! ?j = map (centroid X) ?regs ! ?j" using cen by simp
      moreover have "map (centroid X) new ! ?j = centroid X (new ! ?j)"
        using lt by (rule nth_map)
      moreover have "map (centroid X) ?regs ! i = centroid X (?regs ! i)"
        using i by (rule nth_map)
      ultimately have same_cen: "map (centroid X) ?regs ! ?j = map (centroid X) ?regs ! i"
        using eq by simp
      have "(map (centroid X) ?regs ! ?j = map (centroid X) ?regs ! i) = (?j = i)"
        using d ltN i by (intro nth_eq_iff_index_eq) simp_all
      with same_cen show ?thesis by blast
    qed
    with lt rt j' eq upd show ?thesis by (intro exI [of _ ?j]) simp
  qed
  from final real each show ?thesis
    by (intro exI [of _ ?cl]) (simp add: length_classified)
qed

text \<open>
  Two entries that share a centroid: the matrix is 0 in every cell, and the pairing of each
  row with its own column and the pairing that crosses them are both perfect matchings of
  minimal cost.
\<close>

lemma zero_displacement_tie_admits_both:
  "costMatrix (exampleExternals s)
     [meshOf [(- 1, 0), (1, 0)] 0, meshOf [(0, - 1), (0, 1)] 0]
     [meshOf [(- 1, 0), (1, 0)] 0, meshOf [(0, - 1), (0, 1)] 0] = [[0, 0], [0, 0]] \<and>
   minCostMatching [[0, 0], [0, 0]] [(0, 0), (1, 1)] \<and>
   minCostMatching [[0, 0], [0, 0]] [(0, 1), (1, 0)]"
proof -
  have p: "perms [0..<2] = [[0, 1], [1, 0]]"
    by (simp add: numeral_2_eq_2)
  have "minCostMatching [[0, 0], [0, 0]] [(0, 0), (1, 1)]"
    unfolding minCostMatching_def
    by (auto simp: p perfectMatching_def matchCost_def numeral_2_eq_2)
  moreover have "minCostMatching [[0, 0], [0, 0]] [(0, 1), (1, 0)]"
    unfolding minCostMatching_def
    by (auto simp: p perfectMatching_def matchCost_def numeral_2_eq_2)
  moreover have "costMatrix (exampleExternals s)
     [meshOf [(- 1, 0), (1, 0)] 0, meshOf [(0, - 1), (0, 1)] 0]
     [meshOf [(- 1, 0), (1, 0)] 0, meshOf [(0, - 1), (0, 1)] 0] = [[0, 0], [0, 0]]"
    by (simp add: costMatrix_def exampleExternals_simps meshOf_def centroid_mean_def
          dist_euclid_def numeral_2_eq_2)
  ultimately show ?thesis by simp
qed

end
